theory Spec2Isabelle
  imports Complex_Main
begin

section \<open>Audio2FaceSDK: data model\<close>

text \<open>
  The development embeds the class \<open>Audio2FaceSDK\<close> of \<open>audio2face-sdk-node.mjs\<close>.
  The browser variant differs in how the model is loaded and in how \<open>processAudioFile\<close>
  obtains its samples (it decodes the file and resamples it to 16 kHz before the same
  loop); its other methods are the same.

  In the decoder, the smoother and the aggregator a JavaScript number is either an
  ordinary number or \<open>NaN\<close>. Ordinary doubles are idealised as reals there: rounding
  and overflow to an infinity are outside that part of the model. \<open>NaN\<close> is kept,
  because reading a typed array out of range gives \<open>undefined\<close>, and arithmetic on
  \<open>undefined\<close> gives \<open>NaN\<close>. The resampler is modelled in IEEE doubles (see there).
\<close>

datatype jsnum = Num real | NaN

fun jadd :: "jsnum \<Rightarrow> jsnum \<Rightarrow> jsnum" where
  "jadd (Num x) (Num y) = Num (x + y)"
| "jadd _ _ = NaN"

fun jsub :: "jsnum \<Rightarrow> jsnum \<Rightarrow> jsnum" where
  "jsub (Num x) (Num y) = Num (x - y)"
| "jsub _ _ = NaN"

fun jmul :: "jsnum \<Rightarrow> jsnum \<Rightarrow> jsnum" where
  "jmul (Num x) (Num y) = Num (x * y)"
| "jmul _ _ = NaN"

text \<open>Division by the length of a non-empty array (the only divisor the class uses
  besides the sigmoid's positive denominator).\<close>

fun jdiv_len :: "jsnum \<Rightarrow> nat \<Rightarrow> jsnum" where
  "jdiv_len (Num x) n = Num (x / real n)"
| "jdiv_len NaN n = NaN"

text \<open>\<open>Math.min\<close> and \<open>Math.max\<close> return \<open>NaN\<close> as soon as one argument is \<open>NaN\<close>.\<close>

fun jmin :: "jsnum \<Rightarrow> jsnum \<Rightarrow> jsnum" where
  "jmin (Num x) (Num y) = Num (min x y)"
| "jmin _ _ = NaN"

fun jmax :: "jsnum \<Rightarrow> jsnum \<Rightarrow> jsnum" where
  "jmax (Num x) (Num y) = Num (max x y)"
| "jmax _ _ = NaN"

text \<open>An indexed read \<open>data[k]\<close>: \<open>None\<close> stands for \<open>undefined\<close>.\<close>

definition data_at :: "'a list \<Rightarrow> nat \<Rightarrow> 'a option" where
  "data_at xs k = (if k < length xs then Some (xs ! k) else None)"

text \<open>\<open>undefined\<close> used as an operand of \<open>*\<close> is converted to \<open>NaN\<close>.\<close>

fun to_number :: "jsnum option \<Rightarrow> jsnum" where
  "to_number None = NaN"
| "to_number (Some v) = v"

text \<open>\<open>v || 0\<close>: \<open>undefined\<close>, \<open>NaN\<close> and \<open>0\<close> are falsy.\<close>

fun or_zero :: "jsnum option \<Rightarrow> jsnum" where
  "or_zero None = Num 0"
| "or_zero (Some NaN) = Num 0"
| "or_zero (Some (Num x)) = Num x"

text \<open>Does a number lie in the closed interval from 0 to 1? \<open>NaN\<close> does not.\<close>

fun in_unit :: "jsnum \<Rightarrow> bool" where
  "in_unit (Num x) = (0 \<le> x \<and> x \<le> 1)"
| "in_unit NaN = False"

datatype error =
    ModelNotLoaded
  | BadAudioType
  | TypeError
  | RangeError
  | InferenceFailure string

record blendshape =
  name :: string
  val :: jsnum

record eyes_t =
  leftX :: jsnum
  leftY :: jsnum
  rightX :: jsnum
  rightY :: jsnum

text \<open>
  The result objects of the class: a decoded frame carries \<open>timestamp\<close>, an aggregate
  carries \<open>frameCount\<close>; a field the object does not have is \<open>None\<close>. \<open>eyes\<close> is
  \<open>null\<close> in the empty result.
\<close>

record frame =
  blendshapes :: "blendshape list"
  jaw :: jsnum
  eyes :: "eyes_t option"
  timestamp :: "nat option"
  frameCount :: "nat option"

datatype tensor = Tensor (tdata: "jsnum list") (dims: "nat list")

type_synonym feeds = "string \<rightharpoonup> tensor"

text \<open>
  The inference session is an external object. \<open>run\<close> is its only effect; the model
  records every invocation in \<open>runLog\<close>, so that how often inference is invoked can
  be stated.
\<close>

record inference_session =
  inputNames :: "string list"
  outputNames :: "string list"
  run :: "feeds \<Rightarrow> error + feeds"
  runLog :: "feeds list"

text \<open>The mutable fields of an instance. A PCM sample is a finite number.\<close>

record sdk =
  session :: "inference_session option"
  audioBuffer :: "real list"
  lastResult :: "frame option"
  smoothingFactor :: jsnum

text \<open>The fields the constructor sets once and no method assigns again.\<close>

definition sampleRate :: nat where "sampleRate = 16000"
definition bufferLen :: nat where "bufferLen = 8320"
definition bufferOfs :: nat where "bufferOfs = 4160"
definition skinOffset :: nat where "skinOffset = 0"
definition skinSize :: nat where "skinSize = 140"
definition tongueOffset :: nat where "tongueOffset = 140"
definition tongueSize :: nat where "tongueSize = 10"
definition jawOffset :: nat where "jawOffset = 150"
definition jawSize :: nat where "jawSize = 15"
definition eyesOffset :: nat where "eyesOffset = 165"
definition eyesSize :: nat where "eyesSize = 4"

definition generateBlendshapeNames :: "string list" where
  "generateBlendshapeNames =
    [''browInnerUp'', ''browDownLeft'', ''browDownRight'', ''browOuterUpLeft'',
     ''browOuterUpRight'', ''eyeLookUpLeft'', ''eyeLookUpRight'', ''eyeLookDownLeft'',
     ''eyeLookDownRight'', ''eyeLookInLeft'', ''eyeLookInRight'', ''eyeLookOutLeft'',
     ''eyeLookOutRight'', ''eyeBlinkLeft'', ''eyeBlinkRight'', ''eyeSquintLeft'',
     ''eyeSquintRight'', ''eyeWideLeft'', ''eyeWideRight'', ''cheekPuff'',
     ''cheekSquintLeft'', ''cheekSquintRight'', ''noseSneerLeft'', ''noseSneerRight'',
     ''jawOpen'', ''jawForward'', ''jawLeft'', ''jawRight'',
     ''mouthFunnel'', ''mouthPucker'', ''mouthLeft'', ''mouthRight'',
     ''mouthRollUpper'', ''mouthRollLower'', ''mouthShrugUpper'', ''mouthShrugLower'',
     ''mouthOpen'', ''mouthClose'', ''mouthSmileLeft'', ''mouthSmileRight'',
     ''mouthFrownLeft'', ''mouthFrownRight'', ''mouthDimpleLeft'', ''mouthDimpleRight'',
     ''mouthUpperUpLeft'', ''mouthUpperUpRight'', ''mouthLowerDownLeft'', ''mouthLowerDownRight'',
     ''mouthPressLeft'', ''mouthPressRight'', ''mouthStretchLeft'', ''mouthStretchRight'']"

definition blendshapeNames :: "string list" where
  "blendshapeNames = generateBlendshapeNames"

definition constructor :: sdk where
  "constructor = \<lparr>session = None, audioBuffer = [], lastResult = None,
                   smoothingFactor = Num 0.3\<rparr>"

section \<open>Output decoder\<close>

fun sigmoid :: "jsnum \<Rightarrow> jsnum" where
  "sigmoid (Num x) = Num (1 / (1 + exp (- x)))"
| "sigmoid NaN = NaN"

definition clamp01 :: "jsnum \<Rightarrow> jsnum" where
  "clamp01 v = jmax (Num 0) (jmin (Num 1) v)"

text \<open>The body of \<open>parseOutputs\<close> after the tensor's data has been fetched.\<close>

definition parseData :: "jsnum list \<Rightarrow> nat \<Rightarrow> frame" where
  "parseData data now =
    (let numBs = min (length blendshapeNames) skinSize;
         bs = map (\<lambda>i. \<lparr>name = blendshapeNames ! i,
                         val = clamp01 (sigmoid (jmul (to_number (data_at data (skinOffset + i)))
                                                      (Num 0.1)))\<rparr>)
                  [0..<numBs];
         jawValues = map (\<lambda>i. or_zero (data_at data (jawOffset + i))) [0..<jawSize];
         jaw0 = clamp01 (sigmoid (jmul (to_number (data_at jawValues 0)) (Num 0.1)));
         eo = eyesOffset;
         ey = \<lparr>leftX = or_zero (data_at data eo),
               leftY = or_zero (data_at data (eo + 1)),
               rightX = or_zero (data_at data (eo + 2)),
               rightY = or_zero (data_at data (eo + 3))\<rparr>
     in \<lparr>blendshapes = bs, jaw = jaw0, eyes = Some ey,
         timestamp = Some now, frameCount = None\<rparr>)"

text \<open>\<open>names[0]\<close> used as a property key: \<open>undefined\<close> becomes the key \<open>"undefined"\<close>.\<close>

definition first_name :: "string list \<Rightarrow> string" where
  "first_name ns = (case ns of [] \<Rightarrow> ''undefined'' | n # _ \<Rightarrow> n)"

text \<open>\<open>parseOutputs\<close>: reading \<open>.outputNames\<close> of a null session, or \<open>.data\<close> of a
  missing output, raises a TypeError.\<close>

definition parseOutputs :: "sdk \<Rightarrow> feeds \<Rightarrow> nat \<Rightarrow> error + frame" where
  "parseOutputs s outputs now =
    (case session s of
       None \<Rightarrow> Inl TypeError
     | Some m \<Rightarrow>
        (case outputs (first_name (outputNames m)) of
           None \<Rightarrow> Inl TypeError
         | Some t \<Rightarrow> Inr (parseData (tdata t) now)))"

definition getEmptyResult :: "nat \<Rightarrow> frame" where
  "getEmptyResult now =
    \<lparr>blendshapes = map (\<lambda>n. \<lparr>name = n, val = Num 0\<rparr>) blendshapeNames,
     jaw = Num 0, eyes = None, timestamp = Some now, frameCount = None\<rparr>"

section \<open>Temporal smoother\<close>

text \<open>\<open>prev\<close> may be \<open>null\<close>; with equal lengths every \<open>prev[i]\<close> read is in range.\<close>

definition smoothBlendshapes ::
    "jsnum \<Rightarrow> blendshape list option \<Rightarrow> blendshape list \<Rightarrow> blendshape list" where
  "smoothBlendshapes a prev cur =
    (case prev of
       None \<Rightarrow> cur
     | Some p \<Rightarrow>
        if length p \<noteq> length cur then cur
        else map (\<lambda>(i, bs). \<lparr>name = name bs,
                   val = jadd (jmul (val (p ! i)) a) (jmul (val bs) (jsub (Num 1) a))\<rparr>)
                 (enumerate 0 cur))"

definition setSmoothing :: "sdk \<Rightarrow> jsnum \<Rightarrow> sdk" where
  "setSmoothing s factor = s\<lparr>smoothingFactor := jmax (Num 0) (jmin (Num 1) factor)\<rparr>"

section \<open>Inference\<close>

text \<open>
  \<open>runInference\<close> builds the feeds (\<open>make_feeds\<close>: the window under the input name
  the session advertises, and a zero emotion tensor when the session has an \<open>emotion\<close>
  input), calls \<open>run\<close> (logged, and its failure propagates) and decodes the first
  output. \<open>now\<close> is what \<open>Date.now()\<close> returns during the call.
\<close>

definition make_feeds :: "inference_session \<Rightarrow> real list \<Rightarrow> feeds" where
  "make_feeds m audioChunk =
    (let inputTensor = Tensor (map Num audioChunk) [1, 1, length audioChunk];
         key = (if ''audio'' \<in> set (inputNames m) then ''audio''
                else if ''input'' \<in> set (inputNames m) then ''input''
                else first_name (inputNames m));
         feeds0 = Map.empty(key \<mapsto> inputTensor)
     in if ''emotion'' \<in> set (inputNames m)
        then feeds0(''emotion'' \<mapsto> Tensor (replicate 26 (Num 0)) [1, 1, 26])
        else feeds0)"

definition runInference :: "sdk \<Rightarrow> real list \<Rightarrow> nat \<Rightarrow> (error + frame) \<times> sdk" where
  "runInference s audioChunk now =
    (case session s of
       None \<Rightarrow> (Inl ModelNotLoaded, s)
     | Some m \<Rightarrow>
        (let feeds1 = make_feeds m audioChunk;
             s' = s\<lparr>session := Some (m\<lparr>runLog := runLog m @ [feeds1]\<rparr>)\<rparr>
         in case run m feeds1 of
              Inl e \<Rightarrow> (Inl e, s')
            | Inr results \<Rightarrow> (parseOutputs s' results now, s')))"

section \<open>Aggregator\<close>

text \<open>
  \<open>results.reduce((acc, r) => acc + r.blendshapes[i].value, acc)\<close>: a frame without an
  entry at index \<open>i\<close> makes \<open>r.blendshapes[i]\<close> undefined, and reading \<open>.value\<close> of it
  raises a TypeError.
\<close>

fun sum_values :: "frame list \<Rightarrow> nat \<Rightarrow> jsnum \<Rightarrow> error + jsnum" where
  "sum_values [] i acc = Inr acc"
| "sum_values (r # rs) i acc =
    (case data_at (blendshapes r) i of
       None \<Rightarrow> Inl TypeError
     | Some b \<Rightarrow> sum_values rs i (jadd acc (val b)))"

text \<open>The loop over the indices of the first frame's blendshapes.\<close>

fun avg_loop :: "frame list \<Rightarrow> frame \<Rightarrow> nat list \<Rightarrow> error + blendshape list" where
  "avg_loop results r0 [] = Inr []"
| "avg_loop results r0 (i # idxs) =
    (case sum_values results i (Num 0) of
       Inl e \<Rightarrow> Inl e
     | Inr sm \<Rightarrow>
        (case avg_loop results r0 idxs of
           Inl e \<Rightarrow> Inl e
         | Inr rest \<Rightarrow>
            Inr (\<lparr>name = name (blendshapes r0 ! i), val = jdiv_len sm (length results)\<rparr> # rest)))"

definition aggregateResults :: "frame list \<Rightarrow> nat \<Rightarrow> error + frame" where
  "aggregateResults results now =
    (case results of
       [] \<Rightarrow> Inr (getEmptyResult now)
     | r0 # _ \<Rightarrow>
        (case avg_loop results r0 [0..<length (blendshapes r0)] of
           Inl e \<Rightarrow> Inl e
         | Inr avgBlendshapes \<Rightarrow>
            Inr \<lparr>blendshapes = avgBlendshapes,
                 jaw = jdiv_len (foldl (\<lambda>acc r. jadd acc (jaw r)) (Num 0) results)
                                (length results),
                 eyes = eyes (last results),
                 timestamp = None,
                 frameCount = Some (length results)\<rparr>))"

section \<open>Windowing: batch and streaming\<close>

text \<open>\<open>xs.slice(a, b)\<close> for \<open>0 \<le> a \<le> b\<close>; \<open>xs.slice(a)\<close> is \<open>drop a xs\<close>.\<close>

definition slice :: "'a list \<Rightarrow> nat \<Rightarrow> nat \<Rightarrow> 'a list" where
  "slice xs a b = take (b - a) (drop a xs)"

text \<open>
  What \<open>processAudioFile\<close> accepts: a Buffer, an ArrayBuffer or a Float32Array, each
  read as a sequence of 32-bit floats; anything else is refused.
\<close>

datatype audio_input = Float32Samples "real list" | OtherInput

text \<open>
  The loop \<open>for (let i = 0; i < audioData.length - this.bufferLen; i += hopSize)\<close>.
  \<open>clock k\<close> is what \<open>Date.now()\<close> returns at its \<open>k\<close>-th call of the invocation.
\<close>

function file_loop ::
    "sdk \<Rightarrow> real list \<Rightarrow> nat \<Rightarrow> frame list \<Rightarrow> (nat \<Rightarrow> nat) \<Rightarrow> (error + frame list) \<times> sdk" where
  "file_loop s audioData i results clock =
    (if int i < int (length audioData) - int bufferLen
     then (case runInference s (slice audioData i (i + bufferLen)) (clock (length results)) of
             (Inl e, s') \<Rightarrow> (Inl e, s')
           | (Inr result, s') \<Rightarrow> file_loop s' audioData (i + bufferOfs) (results @ [result]) clock)
     else (Inr results, s))"
  by pat_completeness auto
termination
  by (relation "measure (\<lambda>(s, audioData, i, results, clock). length audioData - i)")
     (auto simp: bufferOfs_def bufferLen_def)

declare file_loop.simps [simp del]

definition processAudioFile ::
    "sdk \<Rightarrow> audio_input \<Rightarrow> (nat \<Rightarrow> nat) \<Rightarrow> (error + frame) \<times> sdk" where
  "processAudioFile s audioBuffer_arg clock =
    (case session s of
       None \<Rightarrow> (Inl ModelNotLoaded, s)
     | Some _ \<Rightarrow>
        (case audioBuffer_arg of
           OtherInput \<Rightarrow> (Inl BadAudioType, s)
         | Float32Samples audioData \<Rightarrow>
            (case file_loop s audioData 0 [] clock of
               (Inl e, s') \<Rightarrow> (Inl e, s')
             | (Inr results, s') \<Rightarrow>
                 (aggregateResults results (clock (length results)), s'))))"

text \<open>
  \<open>processAudioChunk\<close>, statement by statement: the chunk is appended, a short buffer
  returns the held frame (or the empty result), otherwise the window is sliced and the
  buffer shifted by the hop before inference is awaited.
\<close>

definition processAudioChunk :: "sdk \<Rightarrow> real list \<Rightarrow> nat \<Rightarrow> (error + frame) \<times> sdk" where
  "processAudioChunk s audioData now =
    (case session s of
       None \<Rightarrow> (Inl ModelNotLoaded, s)
     | Some _ \<Rightarrow>
        (let s1 = s\<lparr>audioBuffer := audioBuffer s @ audioData\<rparr>
         in if length (audioBuffer s1) < bufferLen
            then (case lastResult s1 of
                    Some r \<Rightarrow> (Inr r, s1)
                  | None \<Rightarrow> (Inr (getEmptyResult now), s1))
            else
              (let chunk = slice (audioBuffer s1) 0 bufferLen;
                   s2 = s1\<lparr>audioBuffer := drop bufferOfs (audioBuffer s1)\<rparr>
               in case runInference s2 chunk now of
                    (Inl e, s3) \<Rightarrow> (Inl e, s3)
                  | (Inr result, s3) \<Rightarrow>
                      (let result' =
                             (case lastResult s3 of
                                Some l \<Rightarrow> result\<lparr>blendshapes :=
                                            smoothBlendshapes (smoothingFactor s3)
                                              (Some (blendshapes l)) (blendshapes result)\<rparr>
                              | None \<Rightarrow> result)
                       in (Inr result', s3\<lparr>lastResult := Some result'\<rparr>)))))"

text \<open>A run of streaming calls, each given as its chunk and its clock reading; the
  caller goes on after a failed call.\<close>

fun processChunks :: "sdk \<Rightarrow> (real list \<times> nat) list \<Rightarrow> sdk" where
  "processChunks s [] = s"
| "processChunks s ((audioData, now) # rest) =
     processChunks (snd (processAudioChunk s audioData now)) rest"

section \<open>Resampler\<close>

text \<open>
  What the resampler returns depends on how its quotient and product are rounded and on
  what it does with infinite samples, so its numbers are IEEE doubles: a finite double is
  the real it denotes, and every operation rounds its exact result to the nearest double,
  ties to even.
\<close>

text \<open>Rounding to the nearest integer, ties to the even one.\<close>

definition round_even :: "real \<Rightarrow> int" where
  "round_even z =
    (let f = \<lfloor>z\<rfloor>; d = z - of_int f
     in if d < 1 / 2 then f else if 1 / 2 < d then f + 1 else if even f then f else f + 1)"

text \<open>
  \<open>rnd p emin y\<close> rounds \<open>y\<close> to the nearest number with \<open>p\<close> significant bits and
  exponent at least \<open>emin\<close> (below that exponent the spacing stays that of the
  subnormals), before any overflow.
\<close>

definition rnd :: "nat \<Rightarrow> int \<Rightarrow> real \<Rightarrow> real" where
  "rnd p emin y =
    (if y = 0 then 0
     else (let e = max \<lfloor>log 2 \<bar>y\<bar>\<rfloor> emin;
               u = 2 powi (e - int p + 1)
           in u * of_int (round_even (y / u))))"

text \<open>A double: a finite value, an infinity or \<open>NaN\<close>. Zero has no sign here.\<close>

datatype double = Finite real | PosInf | NegInf | NotANumber

text \<open>A rounded magnitude of at least \<open>m\<close> (\<open>2^1024\<close> for doubles, \<open>2^128\<close> for
  32-bit floats) becomes an infinity.\<close>

definition overflow_to :: "real \<Rightarrow> real \<Rightarrow> double" where
  "overflow_to m r =
    (if m \<le> r then PosInf else if r \<le> - m then NegInf else Finite r)"

definition to_double :: "real \<Rightarrow> double" where
  "to_double y = overflow_to (2 ^ 1024) (rnd 53 (- 1022) y)"

text \<open>Storing a number into a \<open>Float32Array\<close> rounds it to a 32-bit float.\<close>

fun to_float32 :: "double \<Rightarrow> double" where
  "to_float32 (Finite y) = overflow_to (2 ^ 128) (rnd 24 (- 126) y)"
| "to_float32 d = d"

text \<open>The arithmetic of doubles: the exact result rounded, with the IEEE rules for
  \<open>NaN\<close>, infinities and division by zero.\<close>

fun is_nan :: "double \<Rightarrow> bool" where
  "is_nan NotANumber = True"
| "is_nan _ = False"

fun is_neg :: "double \<Rightarrow> bool" where
  "is_neg (Finite r) = (r < 0)"
| "is_neg NegInf = True"
| "is_neg _ = False"

fun is_zero :: "double \<Rightarrow> bool" where
  "is_zero (Finite r) = (r = 0)"
| "is_zero _ = False"

definition signed_inf :: "bool \<Rightarrow> double" where
  "signed_inf neg = (if neg then NegInf else PosInf)"

fun dmul :: "double \<Rightarrow> double \<Rightarrow> double" where
  "dmul (Finite x) (Finite y) = to_double (x * y)"
| "dmul a b =
    (if is_nan a \<or> is_nan b \<or> is_zero a \<or> is_zero b then NotANumber
     else signed_inf (is_neg a \<noteq> is_neg b))"

fun ddiv :: "double \<Rightarrow> double \<Rightarrow> double" where
  "ddiv (Finite x) (Finite y) =
    (if y = 0 then (if x = 0 then NotANumber else signed_inf (x < 0))
     else to_double (x / y))"
| "ddiv (Finite x) b = (if is_nan b then NotANumber else Finite 0)"
| "ddiv a (Finite y) = (if is_nan a then NotANumber else signed_inf (is_neg a \<noteq> (y < 0)))"
| "ddiv a b = NotANumber"

fun dadd :: "double \<Rightarrow> double \<Rightarrow> double" where
  "dadd (Finite x) (Finite y) = to_double (x + y)"
| "dadd (Finite x) b = b"
| "dadd a (Finite y) = a"
| "dadd a b = (if a = b then a else NotANumber)"

fun dneg :: "double \<Rightarrow> double" where
  "dneg (Finite x) = Finite (- x)"
| "dneg PosInf = NegInf"
| "dneg NegInf = PosInf"
| "dneg NotANumber = NotANumber"

definition dsub :: "double \<Rightarrow> double \<Rightarrow> double" where
  "dsub a b = dadd a (dneg b)"

fun dfloor :: "double \<Rightarrow> double" where
  "dfloor (Finite x) = Finite (of_int \<lfloor>x\<rfloor>)"
| "dfloor d = d"

text \<open>\<open>a >= b\<close>: false as soon as one side is \<open>NaN\<close>.\<close>

fun dge :: "double \<Rightarrow> double \<Rightarrow> bool" where
  "dge (Finite x) (Finite y) = (y \<le> x)"
| "dge NotANumber _ = False"
| "dge _ NotANumber = False"
| "dge PosInf _ = True"
| "dge _ NegInf = True"
| "dge _ _ = False"

text \<open>
  \<open>new Float32Array(n)\<close>: \<open>NaN\<close> gives length 0 and a finite \<open>n\<close> is truncated towards
  zero; a negative, infinite or too large length raises a RangeError. Running out of
  memory is outside the model.
\<close>

fun typed_array_length :: "double \<Rightarrow> error + nat" where
  "typed_array_length NotANumber = Inr 0"
| "typed_array_length (Finite r) =
    (let k = (if r < 0 then \<lceil>r\<rceil> else \<lfloor>r\<rfloor>)
     in if k < 0 \<or> 2 ^ 53 \<le> k then Inl RangeError else Inr (nat k))"
| "typed_array_length _ = Inl RangeError"

text \<open>\<open>audioData[k]\<close> used as a number: a read that is not at an index of the array
  is \<open>undefined\<close>, hence \<open>NaN\<close>.\<close>

fun sample_at :: "double list \<Rightarrow> double \<Rightarrow> double" where
  "sample_at xs (Finite r) =
    (if 0 \<le> r \<and> r = of_int \<lfloor>r\<rfloor> \<and> \<lfloor>r\<rfloor> < int (length xs) then xs ! nat \<lfloor>r\<rfloor>
     else NotANumber)"
| "sample_at xs _ = NotANumber"

text \<open>
  \<open>resampleAudio\<close>, operation by operation. The array length and the loop counter are
  integers below \<open>2^53\<close> and so exact doubles.
\<close>

definition resampleAudio :: "double list \<Rightarrow> double \<Rightarrow> double \<Rightarrow> error + double list" where
  "resampleAudio audioData fromRate toRate =
    (let ratio = ddiv toRate fromRate;
         len = real (length audioData);
         newLength = dfloor (dmul (Finite len) ratio)
     in case typed_array_length newLength of
          Inl e \<Rightarrow> Inl e
        | Inr n \<Rightarrow>
            Inr (map (\<lambda>i.
                   (let pos = ddiv (Finite (real i)) ratio;
                        index = dfloor pos;
                        frac = dsub pos index
                    in to_float32
                         (if dge index (Finite (len - 1))
                          then sample_at audioData (Finite (len - 1))
                          else dadd (dmul (sample_at audioData index) (dsub (Finite 1) frac))
                                    (dmul (sample_at audioData (dadd index (Finite 1))) frac))))
                 [0..<n]))"

text \<open>The finite values a \<open>Float32Array\<close> can hold.\<close>

fun finite_float32 :: "double \<Rightarrow> bool" where
  "finite_float32 (Finite r) = (rnd 24 (- 126) r = r \<and> \<bar>r\<bar> < 2 ^ 128)"
| "finite_float32 _ = False"

section \<open>Disposal\<close>

definition dispose :: "sdk \<Rightarrow> sdk" where
  "dispose s = s\<lparr>session := None, audioBuffer := [], lastResult := None\<rparr>"

text \<open>How many times \<open>run\<close> has been invoked on the instance's session.\<close>

definition runs :: "sdk \<Rightarrow> nat" where
  "runs s = (case session s of None \<Rightarrow> 0 | Some m \<Rightarrow> length (runLog m))"

section \<open>Concrete instances\<close>

text \<open>
  Two sessions on which the pipeline is evaluated: one whose model answers every window
  with 169 zeros (the width of the skin, tongue, jaw and eyes regions together) under the
  output name \<open>output\<close>, and one whose \<open>run\<close> always raises.
\<close>

definition zero_session :: inference_session where
  "zero_session =
    \<lparr>inputNames = [''audio''], outputNames = [''output''],
     run = (\<lambda>_. Inr (Map.empty(''output'' \<mapsto> Tensor (replicate 169 (Num 0)) [1, 169]))),
     runLog = []\<rparr>"

definition failing_session :: inference_session where
  "failing_session =
    \<lparr>inputNames = [''audio''], outputNames = [''output''],
     run = (\<lambda>_. Inl (InferenceFailure ''run failed'')),
     runLog = []\<rparr>"

definition loaded :: "inference_session \<Rightarrow> sdk" where
  "loaded m = constructor\<lparr>session := Some m\<rparr>"

text \<open>A frame with the given blendshape values under the first names of the table.\<close>

definition frame_of :: "jsnum list \<Rightarrow> frame" where
  "frame_of vs =
    \<lparr>blendshapes = map (\<lambda>(n, v). \<lparr>name = n, val = v\<rparr>) (zip blendshapeNames vs),
     jaw = Num 0, eyes = None, timestamp = Some 0, frameCount = None\<rparr>"

section \<open>The blendshape name table\<close>

lemma length_names: "length generateBlendshapeNames = 52"
  by (simp add: generateBlendshapeNames_def)

lemma numBs_eq: "min (length blendshapeNames) skinSize = length blendshapeNames"
  by (simp add: blendshapeNames_def length_names skinSize_def)

lemma parseData_names: "map name (blendshapes (parseData data now)) = blendshapeNames"
  by (simp add: parseData_def Let_def numBs_eq o_def map_nth)

lemma getEmptyResult_names: "map name (blendshapes (getEmptyResult now)) = blendshapeNames"
  by (simp add: getEmptyResult_def o_def)

text \<open>
  C5, as stated, fails: the table returned by \<open>generateBlendshapeNames\<close> does not have
  50 entries.
\<close>

theorem blendshape_table_not_50: "length generateBlendshapeNames \<noteq> 50"
  by (simp add: length_names)

text \<open>
  C5 (amended): the canonical blendshape name table contains exactly 52 names, and it
  fixes the cardinality used throughout: every decoded frame and every empty result
  (also the one the aggregator returns for no frames) contains exactly
  \<open>min(52, skinSize) = 52\<close> pairs, named in the table's order.
\<close>

theorem blendshape_table_cardinality:
  "length generateBlendshapeNames = 52
   \<and> min (length generateBlendshapeNames) skinSize = 52
   \<and> map name (blendshapes (parseData data now)) = generateBlendshapeNames
   \<and> map name (blendshapes (getEmptyResult now)) = generateBlendshapeNames
   \<and> aggregateResults [] now = Inr (getEmptyResult now)"
  using parseData_names[of data now] getEmptyResult_names[of now]
  by (simp add: length_names skinSize_def blendshapeNames_def aggregateResults_def)

section \<open>Shape mismatch in smoothing and aggregation\<close>

lemma sum_values_ok:
  "\<forall>r \<in> set rs. i < length (blendshapes r) \<Longrightarrow> \<exists>v. sum_values rs i acc = Inr v"
  by (induction rs arbitrary: acc) (auto simp: data_at_def)

lemma sum_values_fail:
  "\<exists>r \<in> set rs. length (blendshapes r) \<le> i \<Longrightarrow> sum_values rs i acc = Inl TypeError"
  by (induction rs arbitrary: acc) (auto simp: data_at_def)

lemma sum_values_error: "sum_values rs i acc = Inl e \<Longrightarrow> e = TypeError"
  by (induction rs arbitrary: acc) (auto split: option.splits)

lemma avg_loop_ok:
  "\<forall>i \<in> set idxs. \<forall>r \<in> set rs. i < length (blendshapes r)
   \<Longrightarrow> \<exists>v. avg_loop rs r0 idxs = Inr v"
proof (induction idxs)
  case Nil
  then show ?case by simp
next
  case (Cons i idxs)
  then obtain v where "sum_values rs i (Num 0) = Inr v"
    using sum_values_ok[of rs i "Num 0"] by auto
  moreover obtain w where "avg_loop rs r0 idxs = Inr w" using Cons by auto
  ultimately show ?case by simp
qed

lemma avg_loop_fail:
  "\<exists>i \<in> set idxs. \<exists>r \<in> set rs. length (blendshapes r) \<le> i
   \<Longrightarrow> avg_loop rs r0 idxs = Inl TypeError"
proof (induction idxs)
  case Nil
  then show ?case by simp
next
  case (Cons i idxs)
  show ?case
  proof (cases "\<exists>r \<in> set rs. length (blendshapes r) \<le> i")
    case True
    then show ?thesis using sum_values_fail[of rs i "Num 0"] by simp
  next
    case False
    then have "avg_loop rs r0 idxs = Inl TypeError" using Cons by auto
    then show ?thesis by (auto split: sum.splits dest: sum_values_error)
  qed
qed

lemma aggregate_ok:
  assumes "\<forall>r \<in> set rs. length (blendshapes (hd rs)) \<le> length (blendshapes r)"
  shows "\<exists>a. aggregateResults rs now = Inr a"
proof (cases rs)
  case Nil
  then show ?thesis by (simp add: aggregateResults_def)
next
  case (Cons r0 rest)
  have "\<forall>i \<in> set [0..<length (blendshapes r0)]. \<forall>r \<in> set rs. i < length (blendshapes r)"
    using assms Cons by fastforce
  then obtain v where "avg_loop rs r0 [0..<length (blendshapes r0)] = Inr v"
    using avg_loop_ok by blast
  then show ?thesis using Cons by (simp add: aggregateResults_def)
qed

lemma aggregate_fail:
  assumes "\<exists>r \<in> set rs. length (blendshapes r) < length (blendshapes (hd rs))"
  shows "aggregateResults rs now = Inl TypeError"
proof (cases rs)
  case Nil
  then show ?thesis using assms by simp
next
  case (Cons r0 rest)
  from assms Cons obtain r where
    r: "r \<in> set rs" "length (blendshapes r) < length (blendshapes r0)"
    by auto
  then have "\<exists>i \<in> set [0..<length (blendshapes r0)]. \<exists>r \<in> set rs. length (blendshapes r) \<le> i"
    by (intro bexI[of _ "length (blendshapes r)"] bexI[of _ r]) auto
  then have "avg_loop rs r0 [0..<length (blendshapes r0)] = Inl TypeError"
    by (rule avg_loop_fail)
  then show ?thesis using Cons by (simp add: aggregateResults_def)
qed

text \<open>
  C6, as stated, fails for the aggregator: a first frame with one blendshape followed by
  a frame with none makes \<open>aggregateResults\<close> raise a TypeError.
\<close>

theorem aggregate_mismatch_raises:
  "aggregateResults [frame_of [Num 1], frame_of []] 0 = Inl TypeError"
  by (simp add: aggregateResults_def frame_of_def blendshapeNames_def
                generateBlendshapeNames_def data_at_def)

text \<open>
  C6 (amended): smoothing given frames of differing blendshape cardinality recovers
  locally and never throws: \<open>smooth(prev, curr)\<close> with \<open>|prev| \<noteq> |curr|\<close> returns
  \<open>curr\<close>. The aggregator has no shape check; it completes without error exactly when
  every frame has at least as many blendshapes as the first one.
\<close>

theorem shape_mismatch_recovery:
  "(length p \<noteq> length cur \<longrightarrow> smoothBlendshapes a (Some p) cur = cur)
   \<and> ((\<exists>r. aggregateResults rs now = Inr r)
        \<longleftrightarrow> (\<forall>r \<in> set rs. length (blendshapes (hd rs)) \<le> length (blendshapes r)))"
proof (intro conjI impI iffI)
  assume "length p \<noteq> length cur"
  then show "smoothBlendshapes a (Some p) cur = cur"
    by (simp add: smoothBlendshapes_def)
next
  assume ok: "\<exists>r. aggregateResults rs now = Inr r"
  show "\<forall>r \<in> set rs. length (blendshapes (hd rs)) \<le> length (blendshapes r)"
  proof (rule ccontr)
    assume "\<not> (\<forall>r \<in> set rs. length (blendshapes (hd rs)) \<le> length (blendshapes r))"
    then have "\<exists>r \<in> set rs. length (blendshapes r) < length (blendshapes (hd rs))"
      by (simp add: not_le)
    then have "aggregateResults rs now = Inl TypeError" by (rule aggregate_fail)
    with ok show False by simp
  qed
next
  assume "\<forall>r \<in> set rs. length (blendshapes (hd rs)) \<le> length (blendshapes r)"
  then show "\<exists>r. aggregateResults rs now = Inr r" by (rule aggregate_ok)
qed

theorem shape_mismatch_recovery_witness:
  "length ([] :: blendshape list) \<noteq> length [\<lparr>name = ''jawOpen'', val = Num 1\<rparr>]
   \<and> smoothBlendshapes (Num 0.3) (Some []) [\<lparr>name = ''jawOpen'', val = Num 1\<rparr>]
       = [\<lparr>name = ''jawOpen'', val = Num 1\<rparr>]
   \<and> length (blendshapes (frame_of [Num 1])) \<le> length (blendshapes (frame_of [Num 1, Num 2]))
   \<and> (\<exists>r. aggregateResults [frame_of [Num 1], frame_of [Num 1, Num 2]] 0 = Inr r)"
  using shape_mismatch_recovery[of "[]" "[\<lparr>name = ''jawOpen'', val = Num 1\<rparr>]" "Num 0.3"
          "[frame_of [Num 1], frame_of [Num 1, Num 2]]" 0]
  by (simp add: frame_of_def blendshapeNames_def generateBlendshapeNames_def)

section \<open>Resampler\<close>

lemma round_even_int [simp]: "round_even (of_int k) = k"
  by (simp add: round_even_def)

lemma rnd_0 [simp]: "rnd p emin 0 = 0"
  by (simp add: rnd_def)

lemma floor_log2_eq:
  assumes "2 powi e \<le> \<bar>y\<bar>" "\<bar>y\<bar> < 2 powi (e + 1)"
  shows "\<lfloor>log 2 \<bar>y\<bar>\<rfloor> = e"
proof -
  have pos: "0 < \<bar>y\<bar>" using assms(1) by (smt (verit) zero_less_power_int)
  have a: "(2::real) powr real_of_int e = 2 powi e"
    by (simp add: powr_real_of_int')
  have b: "(2::real) powr (real_of_int e + 1) = 2 powi (e + 1)"
    using powr_real_of_int'[of 2 "e + 1"] by simp
  show ?thesis using assms pos a b
    by (subst floor_log_eq_powr_iff) auto
qed

lemma rnd_eval:
  assumes "2 powi el \<le> \<bar>y\<bar>" "\<bar>y\<bar> < 2 powi (el + 1)"
  shows "rnd p emin y = 2 powi (max el emin - int p + 1)
                         * of_int (round_even (y / 2 powi (max el emin - int p + 1)))"
proof -
  have "y \<noteq> 0" using assms(1) by (smt (verit) zero_less_power_int)
  then show ?thesis using floor_log2_eq[OF assms] by (simp add: rnd_def Let_def)
qed

lemma q49: "rnd 53 (- 1022) (1 / 49) = 5882252574524729 / 2 ^ 58"
  by (subst rnd_eval[where el = "- 6"])
     (simp_all add: power_int_minus round_even_def Let_def)

lemma floor_log2_bounds:
  assumes "y \<noteq> 0"
  shows "2 powi \<lfloor>log 2 \<bar>y\<bar>\<rfloor> \<le> \<bar>y\<bar>" and "\<bar>y\<bar> < 2 powi (\<lfloor>log 2 \<bar>y\<bar>\<rfloor> + 1)"
proof -
  have pos: "0 < \<bar>y\<bar>" using assms by simp
  have "(2::real) powr real_of_int k = 2 powi k" for k
    by (simp add: powr_real_of_int')
  moreover have "(2::real) powr (real_of_int k + 1) = 2 powi (k + 1)" for k
    using powr_real_of_int'[of 2 "k + 1"] by simp
  ultimately have "2 powi \<lfloor>log 2 \<bar>y\<bar>\<rfloor> \<le> \<bar>y\<bar> \<and> \<bar>y\<bar> < 2 powi (\<lfloor>log 2 \<bar>y\<bar>\<rfloor> + 1)"
    using floor_log_eq_powr_iff[of "\<bar>y\<bar>" 2 "\<lfloor>log 2 \<bar>y\<bar>\<rfloor>"] pos
    by simp
  then show "2 powi \<lfloor>log 2 \<bar>y\<bar>\<rfloor> \<le> \<bar>y\<bar>" and "\<bar>y\<bar> < 2 powi (\<lfloor>log 2 \<bar>y\<bar>\<rfloor> + 1)"
    by simp_all
qed

lemma rnd_dyadic:
  assumes k: "\<bar>k\<bar> < 2 ^ p" and e': "emin - int p + 1 \<le> e'"
  shows "rnd p emin (of_int k * 2 powi e') = of_int k * 2 powi e'"
proof (cases "k = 0")
  case True
  then show ?thesis by simp
next
  case False
  let ?y = "of_int k * 2 powi e' :: real"
  have y0: "?y \<noteq> 0" using False by simp
  let ?el = "\<lfloor>log 2 \<bar>?y\<bar>\<rfloor>"
  let ?e = "max ?el emin"
  let ?u = "2 powi (?e - int p + 1) :: real"
  have "real_of_int \<bar>k\<bar> < 2 ^ p" using k by (metis of_int_less_iff of_int_numeral of_int_power)
  then have "\<bar>?y\<bar> < 2 ^ p * 2 powi e'"
    by (simp add: abs_mult)
  also have "\<dots> = 2 powi (int p + e')" by (simp add: power_int_add)
  finally have "2 powi ?el < (2::real) powi (int p + e')"
    using floor_log2_bounds(1)[OF y0] by linarith
  then have "?el < int p + e'"
    by (smt (verit) power_int_increasing)
  then have d: "0 \<le> e' - (?e - int p + 1)" using e' by simp
  have "?y / ?u = of_int k * 2 powi (e' - (?e - int p + 1))"
    by (simp add: power_int_diff)
  also have "\<dots> = of_int k * 2 ^ nat (e' - (?e - int p + 1))"
    using d by (simp add: power_int_nonneg_exp)
  also have "\<dots> = of_int (k * 2 ^ nat (e' - (?e - int p + 1)))" by simp
  finally have q: "?y / ?u = of_int (k * 2 ^ nat (e' - (?e - int p + 1)))" .
  have "rnd p emin ?y = ?u * of_int (round_even (?y / ?u))"
    using y0 by (simp add: rnd_def Let_def)
  also have "\<dots> = ?u * (?y / ?u)" by (simp only: q round_even_int)
  also have "\<dots> = ?y" by simp
  finally show ?thesis .
qed

lemma rnd_int:
  assumes "\<bar>n\<bar> < 2 ^ p" "emin - int p + 1 \<le> 0"
  shows "rnd p emin (of_int n) = of_int n"
  using rnd_dyadic[OF assms(1), of emin 0] assms(2) by simp

lemma rnd_nat:
  assumes "n < 2 ^ 53"
  shows "rnd 53 (- 1022) (real n) = real n"
proof -
  have "\<bar>int n\<bar> < 2 ^ 53" using assms by (metis abs_of_nat of_nat_less_iff of_nat_numeral of_nat_power)
  then show ?thesis using rnd_int[of "int n" 53 "- 1022"] by simp
qed

lemma to_double_nat:
  assumes "n < 2 ^ 53"
  shows "to_double (real n) = Finite (real n)"
proof -
  have "real n < 2 ^ 53" using assms by (metis of_nat_less_iff of_nat_numeral of_nat_power)
  also have "\<dots> < (2::real) ^ 1024" by (intro power_strict_increasing) simp_all
  finally show ?thesis using rnd_nat[OF assms]
    by (simp add: to_double_def overflow_to_def)
qed

lemma overflow_to_finite: "\<bar>r\<bar> < m \<Longrightarrow> overflow_to m r = Finite r"
  by (auto simp: overflow_to_def)

lemma pow53_less_pow1024: "(2::real) ^ 53 < 2 ^ 1024"
  by (intro power_strict_increasing) simp_all

lemma overflow_to_small: "\<bar>r\<bar> \<le> 2 ^ 53 \<Longrightarrow> overflow_to (2 ^ 1024) r = Finite r"
  using pow53_less_pow1024 by (intro overflow_to_finite) linarith

lemma to_double_0 [simp]: "to_double 0 = Finite 0"
  by (simp add: to_double_def overflow_to_def)

lemma to_double_1 [simp]: "to_double 1 = Finite 1"
  using to_double_nat[of 1] by simp

lemma p49: "rnd 53 (- 1022) (49 * (5882252574524729 / 2 ^ 58)) = 9007199254740991 / 2 ^ 53"
  by (subst rnd_eval[where el = "- 1"])
     (simp_all add: power_int_minus round_even_def Let_def)

lemma length_law_fails:
  "resampleAudio (replicate 49 (Finite 0)) (Finite 49) (Finite 1) = Inr []"
proof -
  have ratio: "ddiv (Finite 1) (Finite 49) = Finite (5882252574524729 / 2 ^ 58)"
    by (simp add: to_double_def overflow_to_def q49)
  have "dmul (Finite 49) (Finite (5882252574524729 / 2 ^ 58))
        = overflow_to (2 ^ 1024) (rnd 53 (- 1022) (49 * (5882252574524729 / 2 ^ 58)))"
    by (simp only: dmul.simps to_double_def)
  also have "\<dots> = overflow_to (2 ^ 1024) (9007199254740991 / 2 ^ 53)"
    by (simp only: p49)
  also have "\<dots> = Finite (9007199254740991 / 2 ^ 53)"
    by (rule overflow_to_small) simp
  finally have prod: "dmul (Finite 49) (Finite (5882252574524729 / 2 ^ 58))
              = Finite (9007199254740991 / 2 ^ 53)" .
  have fl: "\<lfloor>9007199254740991 / 2 ^ 53 :: real\<rfloor> = 0" by simp
  have "dfloor (dmul (Finite (real (length (replicate 49 (Finite 0))))) (ddiv (Finite 1) (Finite 49)))
        = Finite 0"
    by (simp only: length_replicate of_nat_numeral ratio prod dfloor.simps fl of_int_0)
  then show ?thesis
    by (simp add: resampleAudio_def Let_def del: length_replicate dmul.simps ddiv.simps)
qed

lemma identity_fails:
  "resampleAudio [Finite 1, PosInf] (Finite 16000) (Finite 16000) = Inr [NotANumber, PosInf]"
proof -
  have two: "to_double 2 = Finite 2" using to_double_nat[of 2] by simp
  have u: "[0..<2::nat] = [0, 1]" by (simp add: upt_rec)
  show ?thesis
    by (simp add: resampleAudio_def Let_def two dsub_def u)
qed

lemma float32_is_double:
  assumes "rnd 24 (- 126) r = r"
  shows "rnd 53 (- 1022) r = r"
proof (cases "r = 0")
  case True
  then show ?thesis by simp
next
  case False
  let ?el = "\<lfloor>log 2 \<bar>r\<bar>\<rfloor>"
  let ?e = "max ?el (- 126)"
  let ?u = "2 powi (?e - 23) :: real"
  let ?k = "round_even (r / ?u)"
  have r: "r = of_int ?k * ?u"
    using assms False by (simp add: rnd_def Let_def mult.commute)
  have "\<bar>r\<bar> < 2 powi (?el + 1)" using floor_log2_bounds(2)[OF False] .
  also have "\<dots> \<le> 2 powi (?e + 1)" by (intro power_int_increasing) simp_all
  finally have lt: "\<bar>r\<bar> < 2 powi (?e + 1)" .
  have "2 powi (?e + 1) = (2::real) powi (?e - 23) * 2 ^ 24"
    using power_int_add[of "2::real" "?e - 23" 24] by (simp add: add.commute)
  then have "\<bar>of_int ?k * ?u\<bar> < ?u * 2 ^ 24" using lt r by simp
  then have "\<bar>real_of_int ?k\<bar> * ?u < 2 ^ 24 * ?u" by (simp add: abs_mult mult.commute)
  then have "\<bar>real_of_int ?k\<bar> < 2 ^ 24" by simp
  then have "real_of_int \<bar>?k\<bar> < real_of_int (2 ^ 24)" by simp
  then have k24: "\<bar>?k\<bar> < 2 ^ 24" by (simp only: of_int_less_iff)
  have "(2::int) ^ 24 < 2 ^ 53" by simp
  then have k: "\<bar>?k\<bar> < 2 ^ 53" using k24 by linarith
  have "rnd 53 (- 1022) (of_int ?k * ?u) = of_int ?k * ?u"
    by (rule rnd_dyadic[OF k]) simp
  then show ?thesis using r by simp
qed

lemma finite_float32_double:
  assumes "finite_float32 (Finite a)"
  shows "to_double a = Finite a" and "to_float32 (Finite a) = Finite a"
proof -
  have f: "rnd 24 (- 126) a = a" and b: "\<bar>a\<bar> < 2 ^ 128" using assms by simp_all
  have "(2::real) ^ 128 \<le> 2 ^ 1024" by (intro power_increasing) simp_all
  then have "\<bar>a\<bar> < 2 ^ 1024" using b by linarith
  then show "to_double a = Finite a"
    using float32_is_double[OF f] by (simp add: to_double_def overflow_to_finite)
  show "to_float32 (Finite a) = Finite a"
    using f b by (simp add: overflow_to_finite)
qed

lemma sample_at_nat: "n < length x \<Longrightarrow> sample_at x (Finite (real n)) = x ! n"
  by simp

lemma resample_element_identity:
  assumes fin: "\<forall>d \<in> set x. finite_float32 d" and len: "length x < 2 ^ 53" and i: "i < length x"
  shows "(let pos = ddiv (Finite (real i)) (Finite 1);
              index = dfloor pos;
              frac = dsub pos index
          in to_float32
               (if dge index (Finite (real (length x) - 1))
                then sample_at x (Finite (real (length x) - 1))
                else dadd (dmul (sample_at x index) (dsub (Finite 1) frac))
                          (dmul (sample_at x (dadd index (Finite 1))) frac))) = x ! i"
proof -
  have i53: "i < 2 ^ 53" using i len by simp
  have pos: "ddiv (Finite (real i)) (Finite 1) = Finite (real i)"
    using to_double_nat[OF i53] by simp
  have idx: "dfloor (Finite (real i)) = Finite (real i)" by simp
  have frac: "dsub (Finite (real i)) (Finite (real i)) = Finite 0" by (simp add: dsub_def)
  have one: "dsub (Finite 1) (Finite 0) = Finite 1" by (simp add: dsub_def)
  obtain a where a: "x ! i = Finite a" and fa: "finite_float32 (Finite a)"
    using fin i by (metis finite_float32.elims(2) nth_mem)
  have at_i: "sample_at x (Finite (real i)) = Finite a" using i a by simp
  show ?thesis
  proof (cases "Suc i = length x")
    case True
    then have last: "real (length x) - 1 = real i" by (simp flip: True)
    show ?thesis
      by (simp only: Let_def pos idx frac last dge.simps order_refl if_True at_i
                     finite_float32_double(2)[OF fa] a)
  next
    case False
    then have lt: "Suc i < length x" using i by simp
    then have ge: "\<not> dge (Finite (real i)) (Finite (real (length x) - 1))" by simp
    obtain b where b: "x ! Suc i = Finite b"
      using fin lt by (metis finite_float32.elims(2) nth_mem)
    have next53: "Suc i < 2 ^ 53" using lt len by simp
    have succ: "dadd (Finite (real i)) (Finite 1) = Finite (real (Suc i))"
      using to_double_nat[OF next53] by (simp add: add.commute)
    have at_s: "sample_at x (Finite (real (Suc i))) = Finite b"
      using sample_at_nat[OF lt] b by simp
    have m1: "dmul (Finite a) (Finite 1) = Finite a" using finite_float32_double(1)[OF fa] by simp
    have m0: "dmul (Finite b) (Finite 0) = Finite 0" by simp
    have s: "dadd (Finite a) (Finite 0) = Finite a" using finite_float32_double(1)[OF fa] by simp
    show ?thesis
      by (simp only: Let_def pos idx frac ge if_False at_i one succ at_s m1 m0 s
                     finite_float32_double(2)[OF fa] a)
  qed
qed

lemma resample_identity:
  assumes fin: "\<forall>d \<in> set x. finite_float32 d" and len: "length x < 2 ^ 53" and r: "0 < r"
  shows "resampleAudio x (Finite r) (Finite r) = Inr x"
proof -
  have ratio: "ddiv (Finite r) (Finite r) = Finite 1" using r by simp
  have prod: "dmul (Finite (real (length x))) (Finite 1) = Finite (real (length x))"
    using to_double_nat[OF len] by simp
  have "real (length x) < 2 ^ 53" using len by (metis of_nat_less_iff of_nat_numeral of_nat_power)
  then have alloc: "typed_array_length (dfloor (Finite (real (length x)))) = Inr (length x)"
    by simp
  have "map (\<lambda>i. (let pos = ddiv (Finite (real i)) (Finite 1);
              index = dfloor pos;
              frac = dsub pos index
          in to_float32
               (if dge index (Finite (real (length x) - 1))
                then sample_at x (Finite (real (length x) - 1))
                else dadd (dmul (sample_at x index) (dsub (Finite 1) frac))
                          (dmul (sample_at x (dadd index (Finite 1))) frac)))) [0..<length x] = x"
    by (rule nth_equalityI)
       (simp_all only: length_map length_upt nth_map nth_upt minus_nat.diff_0 add_0
                       resample_element_identity[OF fin len])
  then show ?thesis
    unfolding resampleAudio_def
    by (simp only: Let_def ratio prod alloc sum.case)
qed

lemma round_even_error: "\<bar>of_int (round_even z) - z\<bar> \<le> 1 / 2"
  unfolding round_even_def Let_def by (auto simp: abs_if) linarith+

lemma round_even_nonneg: "0 \<le> z \<Longrightarrow> 0 \<le> round_even z"
  unfolding round_even_def Let_def by (auto intro: add_nonneg_nonneg)

lemma rnd_nonneg: "0 \<le> y \<Longrightarrow> 0 \<le> rnd p emin y"
  by (auto simp: rnd_def Let_def intro!: mult_nonneg_nonneg round_even_nonneg divide_nonneg_pos)

lemma rnd_error:
  "\<bar>rnd p emin y - y\<bar> \<le> \<bar>y\<bar> * 2 powi (- int p) + 2 powi (emin - int p)"
proof (cases "y = 0")
  case True
  then show ?thesis by simp
next
  case False
  let ?el = "\<lfloor>log 2 \<bar>y\<bar>\<rfloor>"
  let ?e = "max ?el emin"
  let ?u = "2 powi (?e - int p + 1) :: real"
  have u: "0 < ?u" by simp
  have "rnd p emin y - y = ?u * (of_int (round_even (y / ?u)) - y / ?u)"
    using False by (simp add: rnd_def Let_def algebra_simps)
  then have "\<bar>rnd p emin y - y\<bar> = ?u * \<bar>of_int (round_even (y / ?u)) - y / ?u\<bar>"
    by (simp add: abs_mult)
  also have "\<dots> \<le> ?u * (1 / 2)"
    by (intro mult_left_mono round_even_error) simp
  also have "\<dots> = 2 powi (?e - int p)"
    using power_int_add[of "2::real" "?e - int p" 1] by (simp add: algebra_simps)
  finally have bound: "\<bar>rnd p emin y - y\<bar> \<le> 2 powi (?e - int p)" .
  show ?thesis
  proof (cases "emin \<le> ?el")
    case True
    then have "2 powi (?e - int p) = (2::real) powi ?el * 2 powi (- int p)"
      using power_int_add[of "2::real" ?el "- int p"] by (simp add: max_def)
    also have "\<dots> \<le> \<bar>y\<bar> * 2 powi (- int p)"
      by (intro mult_right_mono floor_log2_bounds(1)[OF False]) simp
    finally have "\<bar>rnd p emin y - y\<bar> \<le> \<bar>y\<bar> * 2 powi (- int p)" using bound by linarith
    moreover have "0 \<le> (2::real) powi (emin - int p)" by simp
    ultimately show ?thesis by linarith
  next
    case False
    then have "2 powi (?e - int p) = (2::real) powi (emin - int p)" by (simp add: max_def)
    moreover have "0 \<le> \<bar>y\<bar> * 2 powi (- int p)" by simp
    ultimately show ?thesis using bound by linarith
  qed
qed

lemma rnd53_error: "\<bar>rnd 53 (- 1022) y - y\<bar> \<le> \<bar>y\<bar> / 2 ^ 53 + 1 / 2 ^ 110"
proof -
  have "(2::real) powi (- 1022 - int 53) \<le> 2 powi (- 110)"
    by (intro power_int_increasing) simp_all
  also have "\<dots> = 1 / 2 ^ 110" by (simp add: power_int_minus_divide)
  finally have tiny: "(2::real) powi (- 1022 - int 53) \<le> 1 / 2 ^ 110" .
  have a: "(2::real) powi (- int 53) = 1 / 2 ^ 53" by (simp add: power_int_minus_divide)
  have "\<bar>rnd 53 (- 1022) y - y\<bar> \<le> \<bar>y\<bar> * (1 / 2 ^ 53) + 2 powi (- 1022 - int 53)"
    using rnd_error[of 53 "- 1022" y] by (simp only: a)
  then show ?thesis using tiny by simp
qed

lemma resample_empty:
  assumes "0 < f"
  shows "resampleAudio [] (Finite f) (Finite t) = Inr []"
proof -
  have "dmul (Finite 0) (ddiv (Finite t) (Finite f)) = Finite 0
        \<or> dmul (Finite 0) (ddiv (Finite t) (Finite f)) = NotANumber"
    using assms by (cases "to_double (t / f)") simp_all
  then show ?thesis
    by (auto simp: resampleAudio_def Let_def)
qed

lemma resample_length_rounded:
  assumes f: "0 < f" and t: "0 < t" and len: "length x < 2 ^ 53"
    and out: "real (length x) * t / f < 2 ^ 51"
  shows "\<exists>ys. resampleAudio x (Finite f) (Finite t) = Inr ys
          \<and> int (length ys) = \<lfloor>rnd 53 (- 1022) (real (length x) * rnd 53 (- 1022) (t / f))\<rfloor>
          \<and> \<bar>int (length ys) - \<lfloor>real (length x) * t / f\<rfloor>\<bar> \<le> 1"
proof (cases "x = []")
  case True
  then show ?thesis using resample_empty[OF f, of t] by simp
next
  case False
  define n where "n = real (length x)"
  define R where "R = t / f"
  define q where "q = rnd 53 (- 1022) R"
  define L where "L = n * q"
  define p where "p = rnd 53 (- 1022) L"
  define E where "E = n * R"
  have n1: "1 \<le> n" using False by (cases x) (simp_all add: n_def)
  have n53: "n < 2 ^ 53"
    unfolding n_def using len by (metis of_nat_less_iff of_nat_numeral of_nat_power)
  have R0: "0 < R" using f t by (simp add: R_def)
  have E51: "E < 2 ^ 51" using out by (simp add: E_def n_def R_def)
  have E0: "0 \<le> E" using n1 R0 by (simp add: E_def)
  have "R * 1 \<le> R * n" using n1 R0 by (intro mult_left_mono) simp_all
  then have RE: "R \<le> E" by (simp add: E_def mult.commute)
  have q0: "0 \<le> q" unfolding q_def using R0 by (intro rnd_nonneg) simp
  have qerr: "\<bar>q - R\<bar> \<le> R / 2 ^ 53 + 1 / 2 ^ 110"
    using rnd53_error[of R] R0 by (simp add: q_def)
  have qsmall: "\<bar>q\<bar> \<le> 2 ^ 53" using qerr RE E51 q0 by simp
  have ratio: "ddiv (Finite t) (Finite f) = Finite q"
    using f overflow_to_small[OF qsmall] by (simp add: to_double_def q_def R_def)
  have L0: "0 \<le> L" using n1 q0 by (simp add: L_def)
  have "\<bar>L - E\<bar> = n * \<bar>q - R\<bar>"
    using n1 by (simp add: L_def E_def abs_mult flip: right_diff_distrib)
  also have "\<dots> \<le> n * (R / 2 ^ 53 + 1 / 2 ^ 110)"
    using n1 by (intro mult_left_mono qerr) simp
  also have "\<dots> = E / 2 ^ 53 + n / 2 ^ 110" by (simp add: E_def algebra_simps)
  finally have Lerr: "\<bar>L - E\<bar> \<le> E / 2 ^ 53 + n / 2 ^ 110" .
  have perr: "\<bar>p - L\<bar> \<le> L / 2 ^ 53 + 1 / 2 ^ 110"
    using rnd53_error[of L] L0 by (simp add: p_def)
  have p0: "0 \<le> p" unfolding p_def using L0 by (rule rnd_nonneg)
  have close: "\<bar>p - E\<bar> < 1" using Lerr perr E51 E0 n53 n1 L0 by simp
  have psmall: "\<bar>p\<bar> \<le> 2 ^ 53" using close E51 p0 by simp
  have prod: "dmul (Finite n) (Finite q) = Finite p"
    using overflow_to_small[OF psmall] by (simp add: to_double_def p_def L_def)
  have fl0: "0 \<le> \<lfloor>p\<rfloor>" using p0 by simp
  have "p < 2 ^ 53" using close E51 by simp
  then have "real_of_int \<lfloor>p\<rfloor> < 2 ^ 53" by linarith
  then have alloc: "typed_array_length (dfloor (Finite p)) = Inr (nat \<lfloor>p\<rfloor>)"
    using fl0 by simp
  obtain body where res: "resampleAudio x (Finite f) (Finite t) = Inr (map body [0..<nat \<lfloor>p\<rfloor>])"
    unfolding resampleAudio_def
    by (simp only: Let_def ratio prod alloc sum.case n_def[symmetric])
  have len_eq: "int (length (map body [0..<nat \<lfloor>p\<rfloor>])) = \<lfloor>p\<rfloor>" using fl0 by simp
  have near: "\<bar>\<lfloor>p\<rfloor> - \<lfloor>E\<rfloor>\<bar> \<le> 1" using close by linarith
  show ?thesis
    using res len_eq near
    by (auto simp: p_def L_def q_def n_def R_def E_def)
qed

lemma small_int_float32:
  assumes "\<bar>n\<bar> < 2 ^ 24"
  shows "finite_float32 (Finite (of_int n))"
proof -
  have "real_of_int \<bar>n\<bar> < real_of_int (2 ^ 24)" using assms by (simp only: of_int_less_iff)
  then have a: "\<bar>real_of_int n\<bar> < 2 ^ 24" by simp
  have "(2::real) ^ 24 \<le> 2 ^ 128" by (intro power_increasing) simp_all
  then have "\<bar>real_of_int n\<bar> < 2 ^ 128" using a by linarith
  then show ?thesis using rnd_int[OF assms, of "- 126"] by simp
qed

lemma q3: "rnd 53 (- 1022) (16000 / 48000) = 6004799503160661 / 2 ^ 54"
  by (subst rnd_eval[where el = "- 2"])
     (simp_all add: power_int_minus round_even_def Let_def)

lemma p3: "rnd 53 (- 1022) (3 * (6004799503160661 / 2 ^ 54)) = 1"
  by (subst rnd_eval[where el = "- 1"])
     (simp_all add: power_int_minus round_even_def Let_def)

lemma three_samples_length:
  "\<lfloor>rnd 53 (- 1022) (real (length [a, b, c]) * rnd 53 (- 1022) (16000 / 48000))\<rfloor> = 1"
proof -
  have "real (length [a, b, c]) = 3" by simp
  then show ?thesis by (simp only: q3 p3 floor_one)
qed

text \<open>
  C7, as stated, fails. Length law: 49 samples resampled from rate 49 to rate 1 give an
  empty output, while \<open>floor(49 \<times> 1 / 49) = 1\<close>; the quotient and the product are
  rounded to doubles and the product comes out below 1. Identity: at equal rates a
  finite sample followed by an infinite one is returned as \<open>NaN\<close>.
\<close>

theorem resampler_length_law_fails:
  "resampleAudio (replicate 49 (Finite 0)) (Finite 49) (Finite 1) = Inr []
   \<and> \<lfloor>real (length (replicate 49 (Finite 0))) * 1 / 49\<rfloor> = (1::int)
   \<and> resampleAudio [Finite 1, PosInf] (Finite 16000) (Finite 16000) = Inr [NotANumber, PosInf]"
  using length_law_fails identity_fails by simp

text \<open>
  C7 (amended). Identity: for every sequence \<open>x\<close> of finite 32-bit float samples and
  every positive rate \<open>r\<close>, \<open>resample(x, r, r)\<close> equals \<open>x\<close> elementwise. Length: for
  positive rates \<open>f\<close> and \<open>t\<close> with \<open>len(x) \<times> t / f\<close> below \<open>2^51\<close>, the resampler
  returns a sequence whose length is the floor of the double product
  \<open>len(x) * (t / f)\<close>, quotient and product each rounded to the nearest double; it
  differs from \<open>floor(len(x) \<times> t / f)\<close> by at most 1. Array lengths are below \<open>2^53\<close>.
\<close>

theorem resampler_identity_and_length:
  "((\<forall>d \<in> set x. finite_float32 d) \<and> length x < 2 ^ 53 \<and> 0 < r
      \<longrightarrow> resampleAudio x (Finite r) (Finite r) = Inr x)
   \<and> (0 < f \<and> 0 < t \<and> length x < 2 ^ 53 \<and> real (length x) * t / f < 2 ^ 51
      \<longrightarrow> (\<exists>ys. resampleAudio x (Finite f) (Finite t) = Inr ys
             \<and> int (length ys)
                 = \<lfloor>rnd 53 (- 1022) (real (length x) * rnd 53 (- 1022) (t / f))\<rfloor>
             \<and> \<bar>int (length ys) - \<lfloor>real (length x) * t / f\<rfloor>\<bar> \<le> 1))"
  using resample_identity[of x r] resample_length_rounded[of f t x] by blast

theorem resampler_identity_and_length_witness:
  "resampleAudio [Finite 1, Finite 2, Finite 3] (Finite 16000) (Finite 16000)
     = Inr [Finite 1, Finite 2, Finite 3]
   \<and> (\<exists>ys. resampleAudio [Finite 1, Finite 2, Finite 3] (Finite 48000) (Finite 16000) = Inr ys
          \<and> int (length ys) = 1)"
proof -
  let ?x = "[Finite 1, Finite 2, Finite 3]"
  have fin: "\<forall>d \<in> set ?x. finite_float32 d"
    using small_int_float32[of 1] small_int_float32[of 2] small_int_float32[of 3] by simp
  have len: "length ?x < 2 ^ 53" by simp
  have out: "real (length ?x) * 16000 / 48000 < 2 ^ 51" by simp
  note T = resampler_identity_and_length[of ?x 16000 48000 16000]
  have id: "resampleAudio ?x (Finite 16000) (Finite 16000) = Inr ?x"
    using T fin len by simp
  obtain ys where ys: "resampleAudio ?x (Finite 48000) (Finite 16000) = Inr ys"
    "int (length ys) = \<lfloor>rnd 53 (- 1022) (real (length ?x) * rnd 53 (- 1022) (16000 / 48000))\<rfloor>"
    using T len out by auto
  have "int (length ys) = 1" using ys(2) by (simp only: three_samples_length)
  then show ?thesis using id ys(1) by blast
qed

section \<open>Streaming before the first window\<close>

text \<open>
  C8: for every \<open>processChunk\<close> call on a loaded pipeline made while the accumulated
  samples (buffer plus chunk) are fewer than \<open>L = 8320\<close> and no frame is held, the call
  invokes no inference (the session and its log of runs are as before; only the chunk is
  appended to the buffer) and returns the all-zero empty result: value 0 for every
  canonical blendshape name, jaw 0, eyes absent.
\<close>

theorem short_chunk_returns_empty_result:
  assumes "session s = Some m" and "lastResult s = None"
    and "length (audioBuffer s) + length audioData < bufferLen"
  shows "processAudioChunk s audioData now
           = (Inr (getEmptyResult now), s\<lparr>audioBuffer := audioBuffer s @ audioData\<rparr>)
         \<and> session (snd (processAudioChunk s audioData now)) = Some m
         \<and> runs (snd (processAudioChunk s audioData now)) = runs s
         \<and> blendshapes (getEmptyResult now)
             = map (\<lambda>n. \<lparr>name = n, val = Num 0\<rparr>) generateBlendshapeNames
         \<and> jaw (getEmptyResult now) = Num 0
         \<and> eyes (getEmptyResult now) = None"
  using assms
  by (simp add: processAudioChunk_def Let_def getEmptyResult_def blendshapeNames_def runs_def)

theorem short_chunk_returns_empty_result_witness:
  "session (loaded zero_session) = Some zero_session
   \<and> lastResult (loaded zero_session) = None
   \<and> length (audioBuffer (loaded zero_session)) + length [0::real, 0, 0] < bufferLen
   \<and> fst (processAudioChunk (loaded zero_session) [0, 0, 0] 7) = Inr (getEmptyResult 7)
   \<and> audioBuffer (snd (processAudioChunk (loaded zero_session) [0, 0, 0] 7)) = [0, 0, 0]
   \<and> session (snd (processAudioChunk (loaded zero_session) [0, 0, 0] 7)) = Some zero_session
   \<and> runs (snd (processAudioChunk (loaded zero_session) [0, 0, 0] 7)) = 0"
  using short_chunk_returns_empty_result[of "loaded zero_session" zero_session "[0, 0, 0]" 7]
  by (simp add: loaded_def constructor_def bufferLen_def runs_def zero_session_def)

section \<open>Streaming: the effect of one call\<close>

lemma runInference_fields:
  "audioBuffer (snd (runInference s c n)) = audioBuffer s
   \<and> lastResult (snd (runInference s c n)) = lastResult s
   \<and> smoothingFactor (snd (runInference s c n)) = smoothingFactor s"
  by (simp add: runInference_def Let_def split: option.splits sum.splits)

lemma parseOutputs_session_only:
  "session s = session t \<Longrightarrow> parseOutputs s outs n = parseOutputs t outs n"
  by (simp add: parseOutputs_def)

lemma runInference_session_only:
  "session s = session t \<Longrightarrow>
   fst (runInference s c n) = fst (runInference t c n)
   \<and> session (snd (runInference s c n)) = session (snd (runInference t c n))"
  by (auto simp: runInference_def Let_def intro: parseOutputs_session_only split: option.splits sum.splits)

lemma runInference_runs:
  "session s = Some m \<Longrightarrow> runs (snd (runInference s c n)) = Suc (runs s)"
  by (simp add: runInference_def runs_def Let_def split: option.splits sum.splits)


lemma runInference_buffer_update:
  "runInference (s\<lparr>audioBuffer := b\<rparr>) c n
   = (fst (runInference s c n), (snd (runInference s c n))\<lparr>audioBuffer := b\<rparr>)"
  by (simp add: runInference_def Let_def parseOutputs_def split: option.splits sum.splits)

lemma processAudioChunk_run:
  assumes "session s = Some m" "bufferLen \<le> length (audioBuffer s) + length audioData"
  shows "processAudioChunk s audioData now =
    (case fst (runInference s (slice (audioBuffer s @ audioData) 0 bufferLen) now) of
       Inl e \<Rightarrow> (Inl e, (snd (runInference s (slice (audioBuffer s @ audioData) 0 bufferLen) now))
                          \<lparr>audioBuffer := drop bufferOfs (audioBuffer s @ audioData)\<rparr>)
     | Inr raw \<Rightarrow>
         (let f = (case lastResult s of
                     Some l \<Rightarrow> raw\<lparr>blendshapes := smoothBlendshapes (smoothingFactor s)
                                         (Some (blendshapes l)) (blendshapes raw)\<rparr>
                   | None \<Rightarrow> raw)
          in (Inr f, (snd (runInference s (slice (audioBuffer s @ audioData) 0 bufferLen) now))
                       \<lparr>audioBuffer := drop bufferOfs (audioBuffer s @ audioData),
                         lastResult := Some f\<rparr>)))"
proof -
  let ?w = "slice (audioBuffer s @ audioData) 0 bufferLen"
  let ?b = "drop bufferOfs (audioBuffer s @ audioData)"
  have long: "\<not> length (audioBuffer s) + length audioData < bufferLen"
    using assms(2) by simp
  have run: "runInference (s\<lparr>audioBuffer := ?b\<rparr>) ?w now
             = (fst (runInference s ?w now), (snd (runInference s ?w now))\<lparr>audioBuffer := ?b\<rparr>)"
    by (rule runInference_buffer_update)
  have last: "lastResult (snd (runInference s ?w now)) = lastResult s"
    and smooth: "smoothingFactor (snd (runInference s ?w now)) = smoothingFactor s"
    using runInference_fields[of s ?w now] by simp_all
  show ?thesis
    unfolding processAudioChunk_def
    using assms(1) long
    by (simp add: Let_def runInference_buffer_update last smooth split: sum.splits option.splits)
qed


lemma runInference_const_output:
  assumes "session s = Some m" and "run m = (\<lambda>_. Inr (Map.empty(k \<mapsto> Tensor z d)))"
    and "outputNames m = [k]"
  shows "fst (runInference s c n) = Inr (parseData z n)"
    and "session (snd (runInference s c n)) = Some (m\<lparr>runLog := runLog m @ [make_feeds m c]\<rparr>)"
  using assms by (simp_all add: runInference_def parseOutputs_def first_name_def Let_def)

lemma runInference_failing:
  assumes "session s = Some m" and "run m = (\<lambda>_. Inl e)"
  shows "fst (runInference s c n) = Inl e"
  using assms by (simp add: runInference_def Let_def)

lemma loaded_fields:
  "session (loaded m) = Some m" "audioBuffer (loaded m) = []" "lastResult (loaded m) = None"
  "smoothingFactor (loaded m) = Num 0.3"
  by (simp_all add: loaded_def constructor_def)

text \<open>
  C2 (amended): for every \<open>processChunk\<close> call in which inference on the window fails,
  the failure propagates and the held last frame is unchanged (the last-frame update
  happens only after a successful inference result is decoded). The sample buffer is not
  as before the call: the chunk has been appended and the first \<open>H\<close> samples have been
  dropped before inference is awaited.
\<close>

theorem failed_inference_keeps_last_frame:
  assumes "session s = Some m"
    and "bufferLen \<le> length (audioBuffer s) + length audioData"
    and "fst (runInference s (slice (audioBuffer s @ audioData) 0 bufferLen) now) = Inl e"
  shows "fst (processAudioChunk s audioData now) = Inl e
         \<and> lastResult (snd (processAudioChunk s audioData now)) = lastResult s
         \<and> audioBuffer (snd (processAudioChunk s audioData now))
             = drop bufferOfs (audioBuffer s @ audioData)"
  using assms runInference_fields[of s "slice (audioBuffer s @ audioData) 0 bufferLen" now]
  by (simp add: processAudioChunk_run[OF assms(1,2)] del: drop_append)

text \<open>
  C2, as stated, fails: on a pipeline with an empty buffer and a session that raises, a
  chunk of 8320 samples makes the call fail and still changes the buffer.
\<close>

theorem failed_inference_changes_buffer:
  "fst (processAudioChunk (loaded failing_session) (replicate 8320 0) 0)
     = Inl (InferenceFailure ''run failed'')
   \<and> audioBuffer (snd (processAudioChunk (loaded failing_session) (replicate 8320 0) 0))
       \<noteq> audioBuffer (loaded failing_session)"
proof -
  have f: "fst (runInference (loaded failing_session)
                 (slice (audioBuffer (loaded failing_session) @ replicate 8320 0) 0 bufferLen) 0)
           = Inl (InferenceFailure ''run failed'')"
    by (rule runInference_failing[where m = failing_session])
       (simp_all add: loaded_fields failing_session_def)
  have len: "bufferLen \<le> length (audioBuffer (loaded failing_session)) + length (replicate 8320 (0::real))"
    by (simp add: bufferLen_def loaded_fields)
  show ?thesis
    using f runInference_fields[of "loaded failing_session"
        "slice (audioBuffer (loaded failing_session) @ replicate 8320 0) 0 bufferLen" 0]
    by (simp add: processAudioChunk_run[OF loaded_fields(1) len] loaded_fields bufferOfs_def)
qed

theorem failed_inference_keeps_last_frame_witness:
  "fst (processAudioChunk (loaded failing_session) (replicate 8320 0) 0)
     = Inl (InferenceFailure ''run failed'')
   \<and> lastResult (snd (processAudioChunk (loaded failing_session) (replicate 8320 0) 0)) = None
   \<and> audioBuffer (snd (processAudioChunk (loaded failing_session) (replicate 8320 0) 0))
       = replicate 4160 0"
proof -
  have f: "fst (runInference (loaded failing_session)
                 (slice (audioBuffer (loaded failing_session) @ replicate 8320 0) 0 bufferLen) 0)
           = Inl (InferenceFailure ''run failed'')"
    by (rule runInference_failing[where m = failing_session])
       (simp_all add: loaded_fields failing_session_def)
  have len: "bufferLen \<le> length (audioBuffer (loaded failing_session)) + length (replicate 8320 (0::real))"
    by (simp add: bufferLen_def loaded_fields)
  show ?thesis
    using failed_inference_keeps_last_frame[OF loaded_fields(1) len f]
    by (simp add: loaded_fields bufferOfs_def)
qed


lemma processAudioChunk_not_loaded:
  "session s = None \<Longrightarrow> processAudioChunk s c n = (Inl ModelNotLoaded, s)"
  by (simp add: processAudioChunk_def)

lemma processAudioChunk_short:
  assumes "session s = Some m" "length (audioBuffer s) + length c < bufferLen"
  shows "processAudioChunk s c n
         = (Inr (case lastResult s of Some r \<Rightarrow> r | None \<Rightarrow> getEmptyResult n),
            s\<lparr>audioBuffer := audioBuffer s @ c\<rparr>)"
  using assms by (simp add: processAudioChunk_def Let_def split: option.splits)

lemma processAudioChunk_buffer:
  "audioBuffer (snd (processAudioChunk s c n))
   = (if session s = None then audioBuffer s
      else if length (audioBuffer s) + length c < bufferLen then audioBuffer s @ c
      else drop bufferOfs (audioBuffer s @ c))"
proof (cases "session s")
  case None
  then show ?thesis by (simp add: processAudioChunk_not_loaded)
next
  case (Some m)
  show ?thesis
  proof (cases "length (audioBuffer s) + length c < bufferLen")
    case True
    then show ?thesis using Some by (simp add: processAudioChunk_short[OF Some True])
  next
    case False
    then have long: "bufferLen \<le> length (audioBuffer s) + length c" by simp
    show ?thesis using Some False
      by (simp add: processAudioChunk_run[OF Some long] Let_def split: sum.splits del: drop_append)
  qed
qed

lemma processAudioChunk_invariant:
  assumes "length (audioBuffer s) < bufferLen" "length c \<le> bufferOfs"
  shows "length (audioBuffer (snd (processAudioChunk s c n))) < bufferLen"
  using assms by (auto simp: processAudioChunk_buffer bufferLen_def bufferOfs_def)

lemma processChunks_invariant:
  assumes "length (audioBuffer s) < bufferLen" "\<forall>(c, n) \<in> set calls. length c \<le> bufferOfs"
  shows "length (audioBuffer (processChunks s calls)) < bufferLen"
  using assms
proof (induction calls arbitrary: s)
  case Nil
  then show ?case by simp
next
  case (Cons call calls)
  obtain c n where call: "call = (c, n)" by (cases call)
  have "length (audioBuffer (snd (processAudioChunk s c n))) < bufferLen"
    using Cons.prems call by (intro processAudioChunk_invariant) auto
  then show ?case using Cons call by simp
qed

text \<open>
  C3 (amended): a \<open>processChunk\<close> call that consumes a window drops exactly \<open>H = 4160\<close>
  samples, so the buffer then holds the previous length plus the chunk length minus \<open>H\<close>,
  at least \<open>L - H\<close> and never negative. For every sequence of calls whose chunks have at
  most \<open>H\<close> samples each, starting from a buffer shorter than \<open>L = 8320\<close>, the buffer
  length is strictly less than \<open>L\<close> after every call.
\<close>

theorem buffer_after_window:
  "(session s \<noteq> None \<and> bufferLen \<le> length (audioBuffer s) + length c \<longrightarrow>
      length (audioBuffer (snd (processAudioChunk s c n))) + bufferOfs
        = length (audioBuffer s) + length c
      \<and> bufferLen - bufferOfs \<le> length (audioBuffer (snd (processAudioChunk s c n))))
   \<and> (length (audioBuffer s) < bufferLen \<and> (\<forall>(c, n) \<in> set calls. length c \<le> bufferOfs) \<longrightarrow>
      length (audioBuffer (processChunks s calls)) < bufferLen)"
  using processChunks_invariant[of s calls]
  by (auto simp: processAudioChunk_buffer bufferLen_def bufferOfs_def)

lemma zero_run:
  "fst (runInference (loaded zero_session) w n) = Inr (parseData (replicate 169 (Num 0)) n)"
  by (rule runInference_const_output(1)[where m = zero_session and k = "''output''"])
     (simp_all add: loaded_fields zero_session_def)

text \<open>
  C3, as stated, fails: one call with a chunk of \<open>L + H = 12480\<close> samples on an empty
  buffer runs one inference and leaves 8320 samples, which is not below \<open>L\<close>.
\<close>

theorem buffer_not_below_window:
  "fst (processAudioChunk (loaded zero_session) (replicate 12480 0) 0)
     = Inr (parseData (replicate 169 (Num 0)) 0)
   \<and> runs (snd (processAudioChunk (loaded zero_session) (replicate 12480 0) 0)) = 1
   \<and> \<not> length (audioBuffer (snd (processAudioChunk (loaded zero_session) (replicate 12480 0) 0)))
         < bufferLen"
proof -
  have len: "bufferLen \<le> length (audioBuffer (loaded zero_session)) + length (replicate 12480 (0::real))"
    by (simp add: bufferLen_def loaded_fields)
  have r: "runs (snd (runInference (loaded zero_session) w 0)) = 1" for w
    using runInference_runs[OF loaded_fields(1), of zero_session w 0]
    by (simp add: runs_def loaded_fields zero_session_def)
  show ?thesis
    using zero_run r
    by (simp add: processAudioChunk_run[OF loaded_fields(1) len] Let_def
          loaded_fields bufferLen_def bufferOfs_def runs_def)
qed

theorem buffer_after_window_witness:
  "length (audioBuffer (snd (processAudioChunk (loaded zero_session) (replicate 8320 0) 0))) = 4160
   \<and> length (audioBuffer (processChunks (loaded zero_session)
         [(replicate 4160 0, 0), (replicate 4160 0, 1), (replicate 4000 0, 2)])) < bufferLen"
  using buffer_after_window[of "loaded zero_session" "replicate 8320 0" 0
          "[(replicate 4160 0, 0), (replicate 4160 0, 1), (replicate 4000 0, 2)]"]
  by (simp add: loaded_fields bufferLen_def bufferOfs_def)

section \<open>Streaming: the held frame\<close>







section \<open>Batch processing\<close>

lemma file_loop_fields:
  "audioBuffer (snd (file_loop s a i rs clock)) = audioBuffer s
   \<and> lastResult (snd (file_loop s a i rs clock)) = lastResult s
   \<and> smoothingFactor (snd (file_loop s a i rs clock)) = smoothingFactor s"
proof (induction s a i rs clock rule: file_loop.induct)
  case (1 s audioData i results clock)
  let ?w = "slice audioData i (i + bufferLen)"
  let ?n = "clock (length results)"
  show ?case
  proof (cases "int i < int (length audioData) - int bufferLen")
    case False
    then show ?thesis by (simp add: file_loop.simps[of s audioData i results clock])
  next
    case True
    obtain x s' where run: "runInference s ?w ?n = (x, s')" by (cases "runInference s ?w ?n")
    have keep: "audioBuffer s' = audioBuffer s" "lastResult s' = lastResult s"
      "smoothingFactor s' = smoothingFactor s"
      using runInference_fields[of s ?w ?n] run by simp_all
    show ?thesis
    proof (cases x)
      case (Inl e)
      then show ?thesis using True run keep
        by (simp add: file_loop.simps[of s audioData i results clock])
    next
      case (Inr r)
      have "audioBuffer (snd (file_loop s' audioData (i + bufferOfs) (results @ [r]) clock))
              = audioBuffer s'
            \<and> lastResult (snd (file_loop s' audioData (i + bufferOfs) (results @ [r]) clock))
              = lastResult s'
            \<and> smoothingFactor (snd (file_loop s' audioData (i + bufferOfs) (results @ [r]) clock))
              = smoothingFactor s'"
        using "1.IH"[OF True run[symmetric] Inr] .
      then show ?thesis using True run keep Inr
        by (simp add: file_loop.simps[of s audioData i results clock])
    qed
  qed
qed

lemma file_loop_session_only_all:
  "\<forall>t::sdk. session s = session t \<longrightarrow>
   fst (file_loop s a i rs clock) = fst (file_loop t a i rs clock)
   \<and> session (snd (file_loop s a i rs clock)) = session (snd (file_loop t a i rs clock))"
proof (induction s a i rs clock rule: file_loop.induct)
  case (1 s audioData i results clock)
  let ?w = "slice audioData i (i + bufferLen)"
  let ?n = "clock (length results)"
  show ?case
  proof (intro allI impI)
    fix t :: sdk
    assume st: "session s = session t"
    show "fst (file_loop s audioData i results clock) = fst (file_loop t audioData i results clock)
      \<and> session (snd (file_loop s audioData i results clock))
          = session (snd (file_loop t audioData i results clock))"
    proof (cases "int i < int (length audioData) - int bufferLen")
      case False
      then show ?thesis using st
        by (simp add: file_loop.simps[of s audioData i results clock]
                      file_loop.simps[of t audioData i results clock])
    next
      case True
      obtain x s' where run: "runInference s ?w ?n = (x, s')" by (cases "runInference s ?w ?n")
      obtain y t' where run': "runInference t ?w ?n = (y, t')" by (cases "runInference t ?w ?n")
      have same: "x = y" "session s' = session t'"
        using runInference_session_only[OF st, of ?w ?n] run run' by simp_all
      show ?thesis
      proof (cases x)
        case (Inl e)
        then show ?thesis using True run run' same
          by (simp add: file_loop.simps[of s audioData i results clock]
                        file_loop.simps[of t audioData i results clock])
      next
        case (Inr r)
        have step: "fst (file_loop s' audioData (i + bufferOfs) (results @ [r]) clock)
                = fst (file_loop t' audioData (i + bufferOfs) (results @ [r]) clock)
              \<and> session (snd (file_loop s' audioData (i + bufferOfs) (results @ [r]) clock))
                = session (snd (file_loop t' audioData (i + bufferOfs) (results @ [r]) clock))"
          using "1.IH"[OF True run[symmetric] Inr] same(2) by blast
        have us: "file_loop s audioData i results clock
                  = file_loop s' audioData (i + bufferOfs) (results @ [r]) clock"
          using True run Inr by (simp add: file_loop.simps[of s audioData i results clock])
        have ut: "file_loop t audioData i results clock
                  = file_loop t' audioData (i + bufferOfs) (results @ [r]) clock"
          using True run' Inr same(1) by (simp add: file_loop.simps[of t audioData i results clock])
        show ?thesis using step by (simp only: us ut)
      qed
    qed
  qed
qed

lemma file_loop_session_only:
  "session s = session t \<Longrightarrow>
   fst (file_loop s a i rs clock) = fst (file_loop t a i rs clock)
   \<and> session (snd (file_loop s a i rs clock)) = session (snd (file_loop t a i rs clock))"
  using file_loop_session_only_all by blast

text \<open>
  C9: a batch \<open>processFile\<close> call leaves all streaming state unchanged: for every input
  (also when the call fails) the sample buffer, the held last frame and the smoothing
  factor are the same after the call as before it, and its result does not depend on
  them, so batch never applies smoothing.
\<close>

theorem batch_leaves_streaming_state:
  "audioBuffer (snd (processAudioFile s a clock)) = audioBuffer s
   \<and> lastResult (snd (processAudioFile s a clock)) = lastResult s
   \<and> smoothingFactor (snd (processAudioFile s a clock)) = smoothingFactor s
   \<and> fst (processAudioFile (s\<lparr>audioBuffer := b, lastResult := l, smoothingFactor := al\<rparr>) a clock)
       = fst (processAudioFile s a clock)"
proof -
  let ?t = "s\<lparr>audioBuffer := b, lastResult := l, smoothingFactor := al\<rparr>"
  have st: "session ?t = session s" by simp
  have keep: "audioBuffer (snd (processAudioFile s a clock)) = audioBuffer s
   \<and> lastResult (snd (processAudioFile s a clock)) = lastResult s
   \<and> smoothingFactor (snd (processAudioFile s a clock)) = smoothingFactor s"
  proof (cases a)
    case OtherInput
    then show ?thesis by (simp add: processAudioFile_def split: option.splits)
  next
    case (Float32Samples xs)
    show ?thesis using file_loop_fields[of s xs 0 "[]" clock]
      by (cases "file_loop s xs 0 [] clock")
         (simp add: processAudioFile_def Float32Samples split: option.splits sum.splits)
  qed
  have indep: "fst (processAudioFile ?t a clock) = fst (processAudioFile s a clock)"
  proof (cases a)
    case OtherInput
    then show ?thesis by (simp add: processAudioFile_def split: option.splits)
  next
    case (Float32Samples xs)
    show ?thesis using file_loop_session_only[OF st, of xs 0 "[]" clock]
      by (cases "file_loop s xs 0 [] clock"; cases "file_loop ?t xs 0 [] clock")
         (auto simp: processAudioFile_def Float32Samples split: option.splits sum.splits)
  qed
  show ?thesis using keep indep by blast
qed

lemma aggregate_frameCount:
  "aggregateResults rs n = Inr a \<Longrightarrow> rs \<noteq> [] \<Longrightarrow> frameCount a = Some (length rs)"
  by (auto simp: aggregateResults_def split: list.splits sum.splits)

lemma file_loop_one_window:
  assumes "length a = 12480"
  shows "file_loop s a 0 [] clock =
    (case runInference s (slice a 0 bufferLen) (clock 0) of
       (Inl e, s') \<Rightarrow> (Inl e, s')
     | (Inr r, s') \<Rightarrow> (Inr [r], s'))"
proof -
  have stop: "file_loop s' a bufferOfs [r] clock = (Inr [r], s')" for s' r
    using assms by (subst file_loop.simps) (simp add: bufferOfs_def bufferLen_def)
  have first: "int 0 < int (length a) - int bufferLen"
    using assms by (simp add: bufferLen_def)
  show ?thesis
    using first
    by (simp add: file_loop.simps[of s a 0 "[]" clock] stop
             split: prod.splits sum.splits)
qed

text \<open>
  C1, on the code: for an input of exactly \<open>L + H = 12480\<close> samples the batch loop runs
  one inference and aggregates one window (\<open>frameCount = 1\<close>), not two. The loop guard
  is \<open>i < length - L\<close>, so the start offset \<open>H\<close>, for which \<open>start + L = length\<close>, is
  not visited.
\<close>

theorem window_plus_hop_gives_one_window:
  "(case fst (processAudioFile (loaded zero_session) (Float32Samples (replicate 12480 0)) clock) of
      Inl e \<Rightarrow> None
    | Inr r \<Rightarrow> frameCount r) = Some 1
   \<and> runs (snd (processAudioFile (loaded zero_session) (Float32Samples (replicate 12480 0)) clock))
       = 1"
proof -
  let ?a = "replicate 12480 (0::real)"
  let ?s = "loaded zero_session"
  let ?w = "slice ?a 0 bufferLen"
  let ?r = "parseData (replicate 169 (Num 0)) (clock 0)"
  obtain x s' where run: "runInference ?s ?w (clock 0) = (x, s')"
    by (cases "runInference ?s ?w (clock 0)")
  have x: "x = Inr ?r" using zero_run[of ?w "clock 0"] run by simp
  have r1: "runs s' = 1"
    using runInference_runs[OF loaded_fields(1), of zero_session ?w "clock 0"] run
    by (simp add: runs_def loaded_fields zero_session_def)
  have loop: "file_loop ?s ?a 0 [] clock = (Inr [?r], s')"
    using run x by (simp add: file_loop_one_window)
  obtain agg where agg: "aggregateResults [?r] (clock 1) = Inr agg"
    using aggregate_ok[of "[?r]" "clock 1"] by auto
  have cnt: "frameCount agg = Some 1"
    using aggregate_frameCount[OF agg] by simp
  show ?thesis
    using loop agg cnt r1 by (simp add: processAudioFile_def loaded_fields)
qed

section \<open>Decoding a short model output\<close>

lemma clamp01_NaN: "clamp01 (sigmoid (jmul (to_number None) v)) = NaN"
  by (simp add: clamp01_def)

text \<open>
  C4, on the code: for an empty raw output every blendshape value decodes to \<open>NaN\<close>,
  not to 0.5: the skin read has no \<open>|| 0\<close>, so the undefined entry reaches the
  sigmoid and the clamp as \<open>NaN\<close>. The jaw read has the default and decodes to 0.5.
\<close>

theorem short_output_decodes_to_NaN:
  "map val (blendshapes (parseData [] now)) = replicate 52 NaN
   \<and> jaw (parseData [] now) = Num (1 / 2)"
proof -
  have "map val (blendshapes (parseData [] now)) = map (\<lambda>i. NaN) [0..<52]"
    by (simp add: parseData_def Let_def blendshapeNames_def length_names skinSize_def
                  data_at_def clamp01_def o_def)
  then have bs: "map val (blendshapes (parseData [] now)) = replicate 52 NaN"
    by (simp add: map_replicate_const)
  have jw: "jaw (parseData [] now) = Num (1 / 2)"
    by (simp add: parseData_def Let_def data_at_def jawSize_def clamp01_def)
  show ?thesis using bs jw by simp
qed

text \<open>What does hold: the jaw is always in the unit interval, and so is every
  blendshape value when the raw output covers the names and holds no \<open>NaN\<close> there.\<close>

lemma clamp01_sigmoid_unit: "in_unit (clamp01 (sigmoid (Num x)))"
proof -
  have "0 < 1 + exp (- x)" by (simp add: add_pos_pos)
  then have "0 \<le> 1 / (1 + exp (- x))" by simp
  then show ?thesis by (simp add: clamp01_def)
qed

lemma or_zero_Num: "\<exists>x. or_zero v = Num x"
  by (cases v rule: or_zero.cases) simp_all

lemma jaw_in_unit: "in_unit (jaw (parseData data now))"
proof -
  obtain x where x: "or_zero (data_at data (jawOffset + 0)) = Num x"
    using or_zero_Num by blast
  have "jaw (parseData data now) = clamp01 (sigmoid (jmul (Num x) (Num 0.1)))"
    using x by (simp add: parseData_def Let_def data_at_def[of "map _ _"] jawSize_def)
  then show ?thesis
    using clamp01_sigmoid_unit[of "x * (1 / 10)"] by simp
qed

lemma skin_in_unit:
  assumes "skinOffset + length blendshapeNames \<le> length data"
    and "\<forall>i < length blendshapeNames. data ! (skinOffset + i) \<noteq> NaN"
  shows "\<forall>b \<in> set (blendshapes (parseData data now)). in_unit (val b)"
proof -
  have "in_unit (clamp01 (sigmoid (jmul (to_number (data_at data (skinOffset + i))) (Num 0.1))))"
    if lt: "i < length blendshapeNames" for i
  proof -
    have "data ! (skinOffset + i) \<noteq> NaN" using assms(2) lt by simp
    then obtain x where "data ! (skinOffset + i) = Num x"
      by (cases "data ! (skinOffset + i)") auto
    then show ?thesis using assms(1) lt clamp01_sigmoid_unit[of "x * (1 / 10)"]
      by (simp add: data_at_def)
  qed
  then show ?thesis
    by (auto simp: parseData_def Let_def numBs_eq)
qed

end
